theory Spec2Isabelle
  imports Main "HOL-Library.AList"
begin

section \<open>Text as the program has it\<close>

text \<open>
  A Python \<open>str\<close> is a sequence of Unicode code points; the sheet's cells and the
  literals of \<open>reminders.py\<close> hold Cyrillic text, so a string is a list of code points
  (natural numbers), not of bytes. A Cyrillic literal of the source is written as the
  list of its code points, with a description beside it.
\<close>

type_synonym str = "nat list"

text \<open>What the code raises, as values.\<close>

datatype exn =
    IndexError
  | ValueError
  | JobLookupError
  | RuntimeError
  | APIError bool
  | WorksheetNotFound
  | TransportError

text \<open>
  \<open>str.isspace\<close> on one code point; \<open>str.strip()\<close> and the class \<open>\s\<close> of \<open>re\<close>
  (on \<open>str\<close> patterns) use the same table.
\<close>

definition isspace :: "nat \<Rightarrow> bool" where
  "isspace c \<longleftrightarrow>
     (9 \<le> c \<and> c \<le> 13) \<or> (28 \<le> c \<and> c \<le> 32) \<or> c = 133 \<or> c = 160 \<or> c = 5760 \<or>
     (8192 \<le> c \<and> c \<le> 8202) \<or> c = 8232 \<or> c = 8233 \<or> c = 8239 \<or> c = 8287 \<or> c = 12288"

definition py_strip :: "str \<Rightarrow> str" where
  "py_strip s = rev (dropWhile isspace (rev (dropWhile isspace s)))"

text \<open>
  The class \<open>\d\<close> of \<open>re\<close> on a \<open>str\<close> pattern is every Unicode decimal digit
  (category Nd), and \<open>int()\<close> reads every one of them. Each script's digits are ten
  consecutive code points from its zero: \<open>nd_zeros\<close> lists the zeros (Unicode 14.0).
\<close>

definition nd_zeros :: "nat list" where
  "nd_zeros =
    [48, 1632, 1776, 1984, 2406, 2534, 2662, 2790, 2918, 3046, 3174, 3302, 3430, 3558,
     3664, 3792, 3872, 4160, 4240, 6112, 6160, 6470, 6608, 6784, 6800, 6992, 7088, 7232,
     7248, 42528, 43216, 43264, 43472, 43504, 43600, 44016, 65296, 66720, 68912, 69734,
     69872, 69942, 70096, 70384, 70736, 70864, 71248, 71360, 71472, 71904, 72016, 72784,
     73040, 73120, 92768, 92864, 93008, 120782, 120792, 120802, 120812, 120822, 123200,
     123632, 125264, 130032]"

definition digit_val :: "nat \<Rightarrow> nat option" where
  "digit_val c =
     (case find (\<lambda>z. z \<le> c \<and> c < z + 10) nd_zeros of
        None \<Rightarrow> None
      | Some z \<Rightarrow> Some (c - z))"

definition isdecimal :: "nat \<Rightarrow> bool" where
  "isdecimal c \<longleftrightarrow> digit_val c \<noteq> None"

text \<open>
  \<open>int(s)\<close> on the text of a group matched by \<open>\d{1,2}\<close> or \<open>\d+\<close>: the decimal value,
  an unbounded integer. On any other text the model reports \<open>ValueError\<close>; the signs,
  underscores and surrounding blanks that \<open>int()\<close> also reads never reach it here, and
  the interpreter's configurable cap on the number of digits is not modelled.
\<close>

fun digits_value :: "str \<Rightarrow> int \<Rightarrow> int" where
  "digits_value [] acc = acc"
| "digits_value (c # cs) acc =
     digits_value cs (10 * acc + (case digit_val c of None \<Rightarrow> 0 | Some d \<Rightarrow> int d))"

definition py_int :: "str \<Rightarrow> exn + int" where
  "py_int s = (if s \<noteq> [] \<and> list_all isdecimal s then Inr (digits_value s 0) else Inl ValueError)"

text \<open>
  \<open>str.upper()\<close> and \<open>str.lower()\<close>, on Basic Latin and on the Cyrillic block
  U+0400..U+045F, which is where the literals of the program live. Other code points are
  left as they are: the interpreter's full case tables are not reproduced.
\<close>

definition upper_cp :: "nat \<Rightarrow> nat" where
  "upper_cp c =
     (if 97 \<le> c \<and> c \<le> 122 then c - 32
      else if 1072 \<le> c \<and> c \<le> 1103 then c - 32
      else if 1104 \<le> c \<and> c \<le> 1119 then c - 80
      else c)"

definition lower_cp :: "nat \<Rightarrow> nat" where
  "lower_cp c =
     (if 65 \<le> c \<and> c \<le> 90 then c + 32
      else if 1040 \<le> c \<and> c \<le> 1071 then c + 32
      else if 1024 \<le> c \<and> c \<le> 1039 then c + 80
      else c)"

definition py_upper :: "str \<Rightarrow> str" where
  "py_upper s = map upper_cp s"

definition py_lower :: "str \<Rightarrow> str" where
  "py_lower s = map lower_cp s"

text \<open>ASCII literals are written as Isabelle strings and read as code points.\<close>

definition ascii :: "string \<Rightarrow> str" where
  "ascii s = map of_char s"

section \<open>Regular expressions of \<open>normalize_time\<close>\<close>

text \<open>
  Each piece of a pattern maps the text still to be read to the list of ways it can
  match there, in the order the backtracking matcher of \<open>re\<close> tries them (greedy first);
  a whole pattern is the composition of its pieces and \<open>re.match\<close> takes the first
  way that reaches the end.
\<close>

text \<open>\<open>(\d{1,2})\<close>: two digits if there are two, else one; the group and the rest.\<close>

fun re_digits12 :: "str \<Rightarrow> (str \<times> str) list" where
  "re_digits12 (a # b # r) =
     (if isdecimal a then (if isdecimal b then [([a, b], r)] else []) @ [([a], b # r)]
      else [])"
| "re_digits12 [a] = (if isdecimal a then [([a], [])] else [])"
| "re_digits12 [] = []"

text \<open>\<open>\s*\<close>: as many blanks as there are, then one fewer, down to none.\<close>

fun re_spaces :: "str \<Rightarrow> str list" where
  "re_spaces [] = [[]]"
| "re_spaces (c # cs) = (if isspace c then re_spaces cs @ [c # cs] else [c # cs])"

text \<open>A literal colon, and the class \<open>[:\.\-\s]\<close> (58 colon, 46 period, 45 hyphen).\<close>

fun re_colon :: "str \<Rightarrow> str list" where
  "re_colon (c # cs) = (if c = 58 then [cs] else [])"
| "re_colon [] = []"

fun re_sep :: "str \<Rightarrow> str list" where
  "re_sep (c # cs) = (if c = 58 \<or> c = 46 \<or> c = 45 \<or> isspace c then [cs] else [])"
| "re_sep [] = []"

text \<open>\<open>(?::\d{1,2})?\<close>: the seconds if they match, else nothing.\<close>

definition re_opt_seconds :: "str \<Rightarrow> str list" where
  "re_opt_seconds s = [r. s1 \<leftarrow> re_colon s, (g, r) \<leftarrow> re_digits12 s1] @ [s]"

text \<open>\<open>$\<close> without MULTILINE: the end of the text, or just before a final newline.\<close>

definition re_end :: "str \<Rightarrow> bool" where
  "re_end s \<longleftrightarrow> s = [] \<or> s = [10]"

definition re_first :: "'a list \<Rightarrow> 'a option" where
  "re_first ms = (case ms of [] \<Rightarrow> None | m # _ \<Rightarrow> Some m)"

text \<open>\<open>^(\d{1,2}):(\d{1,2})(?::\d{1,2})?$\<close>\<close>

definition re_hhmmss :: "str \<Rightarrow> (str \<times> str) option" where
  "re_hhmmss s = re_first
     [(g1, g2). (g1, s1) \<leftarrow> re_digits12 s, s2 \<leftarrow> re_colon s1, (g2, s3) \<leftarrow> re_digits12 s2,
                s4 \<leftarrow> re_opt_seconds s3, re_end s4]"

text \<open>\<open>^\s*(\d{1,2})\s*[:\.\-\s]\s*(\d{1,2})\s*$\<close>\<close>

definition re_separated :: "str \<Rightarrow> (str \<times> str) option" where
  "re_separated s = re_first
     [(g1, g2). s1 \<leftarrow> re_spaces s, (g1, s2) \<leftarrow> re_digits12 s1, s3 \<leftarrow> re_spaces s2,
                s4 \<leftarrow> re_sep s3, s5 \<leftarrow> re_spaces s4, (g2, s6) \<leftarrow> re_digits12 s5,
                s7 \<leftarrow> re_spaces s6, re_end s7]"

text \<open>\<open>^\s*(\d{1,2})\s*$\<close>\<close>

definition re_hours :: "str \<Rightarrow> str option" where
  "re_hours s = re_first
     [g1. s1 \<leftarrow> re_spaces s, (g1, s2) \<leftarrow> re_digits12 s1, s3 \<leftarrow> re_spaces s2, re_end s3]"

section \<open>\<open>normalize_time\<close>\<close>

text \<open>
  The three attempts of \<open>normalize_time\<close>, each on the stripped text: a match whose
  numbers are out of range gives nothing and the next pattern is tried.
\<close>

definition in_range :: "int \<Rightarrow> int \<Rightarrow> int \<Rightarrow> bool" where
  "in_range lo x hi \<longleftrightarrow> lo \<le> x \<and> x \<le> hi"

definition check_hm :: "str \<Rightarrow> str \<Rightarrow> exn + (int \<times> int) option" where
  "check_hm g1 g2 =
     (case py_int g1 of Inl e \<Rightarrow> Inl e | Inr h \<Rightarrow>
      (case py_int g2 of Inl e \<Rightarrow> Inl e | Inr mm \<Rightarrow>
        if in_range 0 h 23 \<and> in_range 0 mm 59 then Inr (Some (h, mm)) else Inr None))"

definition time_hhmmss :: "str \<Rightarrow> exn + (int \<times> int) option" where
  "time_hhmmss s =
     (case re_hhmmss s of None \<Rightarrow> Inr None | Some (g1, g2) \<Rightarrow> check_hm g1 g2)"

definition time_separated :: "str \<Rightarrow> exn + (int \<times> int) option" where
  "time_separated s =
     (case re_separated s of None \<Rightarrow> Inr None | Some (g1, g2) \<Rightarrow> check_hm g1 g2)"

definition time_hours :: "str \<Rightarrow> exn + (int \<times> int) option" where
  "time_hours s =
     (case re_hours s of
        None \<Rightarrow> Inr None
      | Some g1 \<Rightarrow>
          (case py_int g1 of Inl e \<Rightarrow> Inl e | Inr h \<Rightarrow>
            if in_range 0 h 23 then Inr (Some (h, 0)) else Inr None))"

definition normalize_time :: "str \<Rightarrow> exn + (int \<times> int) option" where
  "normalize_time s0 =
     (let s = py_strip s0 in
      case time_hhmmss s of
        Inl e \<Rightarrow> Inl e
      | Inr (Some t) \<Rightarrow> Inr (Some t)
      | Inr None \<Rightarrow>
          (case time_separated s of
             Inl e \<Rightarrow> Inl e
           | Inr (Some t) \<Rightarrow> Inr (Some t)
           | Inr None \<Rightarrow>
               (case time_hours s of
                  Inl e \<Rightarrow> Inl e
                | Inr (Some t) \<Rightarrow> Inr (Some t)
                | Inr None \<Rightarrow> Inr None)))"

section \<open>Rows and job items\<close>

text \<open>\<open>re.search(r"\d+", s)\<close>: the first maximal run of decimal digits, if there is one.\<close>

definition re_search_digits :: "str \<Rightarrow> str option" where
  "re_search_digits s =
     (let t = dropWhile (\<lambda>c. \<not> isdecimal c) s
      in if t = [] then None else Some (takeWhile isdecimal t))"

text \<open>\<open>extract_first_digits\<close>; its argument here is always a \<open>str\<close>, never \<open>None\<close>.\<close>

definition extract_first_digits :: "str \<Rightarrow> exn + int option" where
  "extract_first_digits s =
     (case re_search_digits s of
        None \<Rightarrow> Inr None
      | Some g \<Rightarrow> (case py_int g of Inl e \<Rightarrow> Inl e | Inr n \<Rightarrow> Inr (Some n)))"

text \<open>\<open>str(i)\<close> of an integer, as the f-string \<open>f"row-{idx}"\<close> formats it.\<close>

fun digits_of_nat :: "nat \<Rightarrow> str" where
  "digits_of_nat n =
     (if n < 10 then [48 + n] else digits_of_nat (n div 10) @ [48 + n mod 10])"

declare digits_of_nat.simps [simp del]

definition py_str_int :: "int \<Rightarrow> str" where
  "py_str_int i = (if i < 0 then 45 # digits_of_nat (nat (- i)) else digits_of_nat (nat i))"

definition row_prefix :: str where
  "row_prefix = ascii ''row-''"

definition row_key :: "int \<Rightarrow> str" where
  "row_key idx = row_prefix @ py_str_int idx"

text \<open>
  The dictionaries that \<open>parse_row\<close> returns have one of three shapes, told apart by
  their \<open>"type"\<close>; each shape is a constructor with exactly the keys the dictionary has.
\<close>

datatype item =
    Daily (item_key: str) (item_message: str) (item_hour: int) (item_minute: int)
  | Weekly (item_key: str) (item_message: str) (item_dow: int) (item_hour: int)
      (item_minute: int)
  | Monthly (item_key: str) (item_message: str) (item_dom: int) (item_hour: int)
      (item_minute: int)

text \<open>The records written to the log; a row's warning carries its reason.\<close>

datatype reason =
    Empty_message
  | Bad_time str
  | Bad_weekday str
  | Bad_day_of_month str
  | Unknown_period str

datatype trigger =
    CronTrigger (cron_day_of_week: "int option") (cron_day: "int option") (cron_hour: int)
      (cron_minute: int)
  | IntervalTrigger int

datatype log_entry =
    Creds_info
  | Api_disabled
  | No_access
  | Sheet_empty
  | Row_warning int reason
  | Refresh_done nat nat
  | No_jobs
  | Jobs_count nat
  | Job_line str trigger
  | Refresh_failed exn

text \<open>\<open>WEEKDAY_MAP\<close>: the full and the short Russian names of the days.\<close>

definition WEEKDAY_MAP :: "(str \<times> int) list" where
  "WEEKDAY_MAP =
    [([1087, 1086, 1085, 1077, 1076, 1077, 1083, 1100, 1085, 1080, 1082], 0),
     ([1074, 1090, 1086, 1088, 1085, 1080, 1082], 1),
     ([1089, 1088, 1077, 1076, 1072], 2),
     ([1095, 1077, 1090, 1074, 1077, 1088, 1075], 3),
     ([1087, 1103, 1090, 1085, 1080, 1094, 1072], 4),
     ([1089, 1091, 1073, 1073, 1086, 1090, 1072], 5),
     ([1074, 1086, 1089, 1082, 1088, 1077, 1089, 1077, 1085, 1100, 1077], 6),
     ([1087, 1085], 0), ([1074, 1090], 1), ([1089, 1088], 2), ([1095, 1090], 3),
     ([1087, 1090], 4), ([1089, 1073], 5), ([1074, 1089], 6)]"

text \<open>
  The accepted status texts: \<open>TRUE\<close>, \<open>1\<close>, the Cyrillic \<open>DA\<close> (U+0414 U+0410) and
  \<open>TRUE\<close> followed by the check mark U+2713.
\<close>

definition truthy :: "str list" where
  "truthy = [ascii ''TRUE'', ascii ''1'', [1044, 1040], ascii ''TRUE'' @ [10003]]"

text \<open>The period words: day, week, month.\<close>

definition period_day :: str where
  "period_day = [1076, 1077, 1085, 1100]"

definition period_week :: str where
  "period_week = [1085, 1077, 1076, 1077, 1083, 1103]"

definition period_month :: str where
  "period_month = [1084, 1077, 1089, 1103, 1094]"

text \<open>\<open>row[i]\<close> for a constant index \<open>i \<ge> 0\<close>: out of range raises.\<close>

definition cell :: "str list \<Rightarrow> nat \<Rightarrow> exn + str" where
  "cell row i = (if i < length row then Inr (row ! i) else Inl IndexError)"

text \<open>
  \<open>parse_row\<close> returns the warnings it logged (through \<open>_warn\<close>) and the item or
  \<open>None\<close>. The status cell is read and tested before the other five are read;
  \<open>parse_fields\<close> is the rest of the body of \<open>parse_row\<close>, from the test of the message
  on, applied to the five cells once they are stripped (and lower-cased where the source
  does so).
\<close>

definition parse_fields ::
  "int \<Rightarrow> str \<Rightarrow> str \<Rightarrow> str \<Rightarrow> str \<Rightarrow> str \<Rightarrow> exn + (log_entry list \<times> item option)" where
  "parse_fields idx message period date_raw weekday_raw time_raw =
     (if message = [] then Inr ([Row_warning idx Empty_message], None)
      else
        case normalize_time time_raw of
          Inl e \<Rightarrow> Inl e
        | Inr None \<Rightarrow> Inr ([Row_warning idx (Bad_time time_raw)], None)
        | Inr (Some (hour, minute)) \<Rightarrow>
            if period = period_day then Inr ([], Some (Daily (row_key idx) message hour minute))
            else if period = period_week then
              (case map_of WEEKDAY_MAP weekday_raw of
                 None \<Rightarrow> Inr ([Row_warning idx (Bad_weekday weekday_raw)], None)
               | Some d \<Rightarrow> Inr ([], Some (Weekly (row_key idx) message d hour minute)))
            else if period = period_month then
              (case extract_first_digits date_raw of
                 Inl e \<Rightarrow> Inl e
               | Inr None \<Rightarrow> Inr ([Row_warning idx (Bad_day_of_month date_raw)], None)
               | Inr (Some dom') \<Rightarrow>
                   if \<not> in_range 1 dom' 31
                   then Inr ([Row_warning idx (Bad_day_of_month date_raw)], None)
                   else Inr ([], Some (Monthly (row_key idx) message dom' hour minute)))
            else Inr ([Row_warning idx (Unknown_period period)], None))"

definition parse_row :: "int \<Rightarrow> str list \<Rightarrow> exn + (log_entry list \<times> item option)" where
  "parse_row idx row =
     (case cell row 0 of Inl e \<Rightarrow> Inl e | Inr c0 \<Rightarrow>
        if py_upper (py_strip c0) \<notin> set truthy then Inr ([], None)
        else
          (case cell row 1 of Inl e \<Rightarrow> Inl e | Inr c1 \<Rightarrow>
          (case cell row 2 of Inl e \<Rightarrow> Inl e | Inr c2 \<Rightarrow>
          (case cell row 3 of Inl e \<Rightarrow> Inl e | Inr c3 \<Rightarrow>
          (case cell row 4 of Inl e \<Rightarrow> Inl e | Inr c4 \<Rightarrow>
          (case cell row 5 of Inl e \<Rightarrow> Inl e | Inr c5 \<Rightarrow>
             parse_fields idx (py_strip c1) (py_lower (py_strip c2)) (py_strip c3)
               (py_lower (py_strip c4)) (py_strip c5)))))))"

section \<open>The scheduler's jobs\<close>

text \<open>
  A job of the scheduler: its trigger and what it calls (\<open>send\<close> with the message, or
  the \<open>poll\<close> closure of \<open>main\<close>). The job store holds one job per id; it is kept as
  an association list from id to job, which is also what \<open>get_jobs()\<close> enumerates. The
  store's own ordering (by next run time) plays no part in the program.
\<close>

datatype func = Send str | Poll

datatype job = Job (job_trigger: trigger) (job_func: func)

type_synonym registry = "(str \<times> job) list"

definition get_job :: "str \<Rightarrow> registry \<Rightarrow> job option" where
  "get_job job_id reg = map_of reg job_id"

definition get_jobs :: "registry \<Rightarrow> (str \<times> job) list" where
  "get_jobs reg = reg"

text \<open>\<open>job.remove()\<close>: the scheduler raises \<open>JobLookupError\<close> when the id is not there.\<close>

definition remove_job :: "str \<Rightarrow> registry \<Rightarrow> exn + registry" where
  "remove_job job_id reg =
     (if job_id \<in> fst ` set reg then Inr (AList.delete job_id reg) else Inl JobLookupError)"

text \<open>\<open>add_job(..., id=job_id, replace_existing=True)\<close> on a running scheduler.\<close>

definition add_job :: "str \<Rightarrow> job \<Rightarrow> registry \<Rightarrow> registry" where
  "add_job job_id j reg = AList.update job_id j reg"

text \<open>
  What the program changes: the scheduler's jobs and the log. (The bot and the time
  zone are fixed for a run and are left out of the jobs' arguments.)
\<close>

record world =
  jobs :: registry
  log :: "log_entry list"

definition log_add :: "log_entry list \<Rightarrow> world \<Rightarrow> world" where
  "log_add es w = w\<lparr>log := log w @ es\<rparr>"

definition startswith :: "str \<Rightarrow> str \<Rightarrow> bool" where
  "startswith s p \<longleftrightarrow> take (length p) s = p"

definition debug_list_jobs :: "world \<Rightarrow> world" where
  "debug_list_jobs w =
     (let js = get_jobs (jobs w)
      in if js = [] then log_add [No_jobs] w
         else log_add (Jobs_count (length js) # map (\<lambda>(i, j). Job_line i (job_trigger j)) js) w)"

text \<open>
  \<open>schedule_job\<close>: an old job with the item's key is removed, the trigger is built from
  the item's type, and the job is added under the key. Every item has one of the three
  types, so the source's final \<open>else: return\<close> has no item to apply to.
\<close>

definition item_trigger :: "item \<Rightarrow> trigger" where
  "item_trigger it =
     (case it of
        Daily k m h mi \<Rightarrow> CronTrigger None None h mi
      | Weekly k m d h mi \<Rightarrow> CronTrigger (Some d) None h mi
      | Monthly k m d h mi \<Rightarrow> CronTrigger None (Some d) h mi)"

definition item_job :: "item \<Rightarrow> job" where
  "item_job it = Job (item_trigger it) (Send (item_message it))"

definition schedule_job :: "item \<Rightarrow> registry \<Rightarrow> exn + registry" where
  "schedule_job it reg =
     (let job_id = item_key it in
      case (case get_job job_id reg of None \<Rightarrow> Inr reg | Some old \<Rightarrow> remove_job job_id reg) of
        Inl e \<Rightarrow> Inl e
      | Inr reg1 \<Rightarrow> Inr (add_job job_id (item_job it) reg1))"

section \<open>The row source\<close>

text \<open>
  The sheet is outside the program. One fetch is described by what each of its steps
  does: authorising, opening the spreadsheet, opening the worksheet, reading all values.
\<close>

record row_source =
  authorize :: "exn option"
  open_by_key :: "exn option"
  worksheet :: "exn option"
  get_all_values :: "exn + str list list"

text \<open>
  \<open>get_sheet\<close>: an \<open>APIError\<close> on opening is logged and raised again (its flag says
  whether the response names a disabled service); every other failure passes through.
\<close>

definition get_sheet :: "row_source \<Rightarrow> world \<Rightarrow> exn option \<times> world" where
  "get_sheet src w =
     (case authorize src of
        Some e \<Rightarrow> (Some e, w)
      | None \<Rightarrow>
          (let w1 = log_add [Creds_info] w in
           case open_by_key src of
             Some (APIError disabled) \<Rightarrow>
               (Some (APIError disabled),
                log_add ((if disabled then [Api_disabled] else []) @ [No_access]) w1)
           | Some e \<Rightarrow> (Some e, w1)
           | None \<Rightarrow>
               (case worksheet src of Some e \<Rightarrow> (Some e, w1) | None \<Rightarrow> (None, w1))))"

section \<open>\<open>refresh_schedule\<close> and the poll\<close>

text \<open>\<open>(row + [""] * 6)[:6]\<close>\<close>

definition pad_row :: "str list \<Rightarrow> str list" where
  "pad_row row = take 6 (row @ replicate 6 [])"

text \<open>\<open>enumerate(xs, start=n)\<close>\<close>

fun enumerate_from :: "int \<Rightarrow> 'a list \<Rightarrow> (int \<times> 'a) list" where
  "enumerate_from n [] = []"
| "enumerate_from n (x # xs) = (n, x) # enumerate_from (n + 1) xs"

text \<open>
  The first loop of \<open>refresh_schedule\<close>, over the numbered data rows, with the loop's
  variables \<open>active_keys\<close> and \<open>planned\<close> and the world. An exception leaves the loop with
  the world as it is at that point.
\<close>

fun rows_loop ::
  "(int \<times> str list) list \<Rightarrow> str set \<Rightarrow> nat \<Rightarrow> world \<Rightarrow> exn option \<times> str set \<times> nat \<times> world" where
  "rows_loop [] active_keys planned w = (None, active_keys, planned, w)"
| "rows_loop ((idx, row) # rest) active_keys planned w =
     (case parse_row idx (pad_row row) of
        Inl e \<Rightarrow> (Some e, active_keys, planned, w)
      | Inr (warnings, None) \<Rightarrow> rows_loop rest active_keys planned (log_add warnings w)
      | Inr (warnings, Some it) \<Rightarrow>
          (let w1 = log_add warnings w in
           case schedule_job it (jobs w1) of
             Inl e \<Rightarrow> (Some e, insert (item_key it) active_keys, planned, w1)
           | Inr reg \<Rightarrow>
               rows_loop rest (insert (item_key it) active_keys) (planned + 1)
                 (w1\<lparr>jobs := reg\<rparr>)))"

text \<open>The second loop, over the jobs that \<open>get_jobs()\<close> returned before it started.\<close>

fun remove_stale ::
  "(str \<times> job) list \<Rightarrow> str set \<Rightarrow> registry \<Rightarrow> exn option \<times> registry" where
  "remove_stale [] active_keys reg = (None, reg)"
| "remove_stale ((job_id, j) # rest) active_keys reg =
     (if startswith job_id row_prefix \<and> job_id \<notin> active_keys then
        (case remove_job job_id reg of
           Inl e \<Rightarrow> (Some e, reg)
         | Inr reg1 \<Rightarrow> remove_stale rest active_keys reg1)
      else remove_stale rest active_keys reg)"

definition refresh_schedule :: "row_source \<Rightarrow> world \<Rightarrow> exn option \<times> world" where
  "refresh_schedule src w =
     (case get_sheet src w of
        (Some e, w1) \<Rightarrow> (Some e, w1)
      | (None, w1) \<Rightarrow>
          (case get_all_values src of
             Inl e \<Rightarrow> (Some e, w1)
           | Inr values \<Rightarrow>
               if values = [] \<or> length values < 2 then (None, log_add [Sheet_empty] w1)
               else
                 (case rows_loop (enumerate_from 2 (drop 1 values)) {} 0 w1 of
                    (Some e, active_keys, planned, w2) \<Rightarrow> (Some e, w2)
                  | (None, active_keys, planned, w2) \<Rightarrow>
                      (case remove_stale (get_jobs (jobs w2)) active_keys (jobs w2) of
                         (Some e, reg) \<Rightarrow> (Some e, w2\<lparr>jobs := reg\<rparr>)
                       | (None, reg) \<Rightarrow>
                           (None,
                            debug_list_jobs
                              (log_add [Refresh_done planned (card active_keys)]
                                 (w2\<lparr>jobs := reg\<rparr>)))))))"

text \<open>
  \<open>poll\<close>, the closure of \<open>main\<close>: whatever \<open>refresh_schedule\<close> raises is caught and
  logged. The first component is what escapes \<open>poll\<close>.
\<close>

definition poll :: "row_source \<Rightarrow> world \<Rightarrow> exn option \<times> world" where
  "poll src w =
     (case refresh_schedule src w of
        (Some e, w1) \<Rightarrow> (None, log_add [Refresh_failed e] w1)
      | (None, w1) \<Rightarrow> (None, w1))"

text \<open>
  \<open>main\<close> polls once, then registers \<open>poll\<close> as the interval job \<open>sheet-poll\<close>; from then
  on the scheduler calls it at every tick for as long as that job is registered. A tick
  is given the state of the row source at that moment. (The checks of the configuration
  at the top of \<open>main\<close> and the test message it may send are left out.)
\<close>

definition sheet_poll :: str where
  "sheet_poll = ascii ''sheet-poll''"

definition start_polling :: "int \<Rightarrow> row_source \<Rightarrow> world \<Rightarrow> exn option \<times> world" where
  "start_polling seconds src w =
     (case poll src w of
        (Some e, w1) \<Rightarrow> (Some e, w1)
      | (None, w1) \<Rightarrow>
          (None, w1\<lparr>jobs := add_job sheet_poll (Job (IntervalTrigger seconds) Poll) (jobs w1)\<rparr>))"

definition tick :: "row_source \<Rightarrow> world \<Rightarrow> world" where
  "tick src w =
     (case get_job sheet_poll (jobs w) of
        Some (Job t Poll) \<Rightarrow> snd (poll src w)
      | _ \<Rightarrow> w)"

fun ticks :: "row_source list \<Rightarrow> world \<Rightarrow> world" where
  "ticks [] w = w"
| "ticks (src # rest) w = ticks rest (tick src w)"

section \<open>Notions used to state the properties\<close>

text \<open>A text of one or two decimal digits, as \<open>\d{1,2}\<close> captures it.\<close>

definition digits12 :: "str \<Rightarrow> bool" where
  "digits12 g \<longleftrightarrow> (length g = 1 \<or> length g = 2) \<and> list_all isdecimal g"

text \<open>
  The items that \<open>parse_row\<close> accepts from numbered rows, in order, and from the data rows
  of a grid as \<open>refresh_schedule\<close> numbers them.
\<close>

definition parsed_items :: "(int \<times> str list) list \<Rightarrow> item list" where
  "parsed_items rs =
     concat (map (\<lambda>(idx, row).
       case parse_row idx (pad_row row) of Inr (ws, Some it) \<Rightarrow> [it] | _ \<Rightarrow> []) rs)"

definition accepted :: "str list list \<Rightarrow> item list" where
  "accepted values = parsed_items (enumerate_from 2 (drop 1 values))"

text \<open>The ids of the jobs of a registry that are marked as made from a row.\<close>

definition row_job_ids :: "registry \<Rightarrow> str set" where
  "row_job_ids reg = {k \<in> fst ` set reg. startswith k row_prefix}"

text \<open>A fetch in which every step succeeds and the sheet holds the given grid.\<close>

definition fetched :: "str list list \<Rightarrow> row_source" where
  "fetched values =
     \<lparr>authorize = None, open_by_key = None, worksheet = None, get_all_values = Inr values\<rparr>"

text \<open>A fetch in which one of the steps raises.\<close>

definition fetch_fails :: "row_source \<Rightarrow> bool" where
  "fetch_fails src \<longleftrightarrow>
     authorize src \<noteq> None \<or> open_by_key src \<noteq> None \<or> worksheet src \<noteq> None \<or>
     isl (get_all_values src)"

text \<open>
  What \<open>schedule_job\<close> does to the job store when nothing raises: the job of the item
  stands under the item's key, in place of any job that had that id.
\<close>

definition upsert :: "item \<Rightarrow> registry \<Rightarrow> registry" where
  "upsert it reg = AList.update (item_key it) (item_job it) (AList.delete (item_key it) reg)"

text \<open>The jobs that the second loop of \<open>refresh_schedule\<close> removes.\<close>

definition stale :: "str set \<Rightarrow> str \<Rightarrow> bool" where
  "stale active_keys job_id \<longleftrightarrow> startswith job_id row_prefix \<and> job_id \<notin> active_keys"

section \<open>Digits, blanks and the three patterns\<close>

lemma isspace_enum:
  "isspace c \<Longrightarrow> c \<in> {9,10,11,12,13,28,29,30,31,32,133,160,5760,8192,8193,8194,8195,8196,8197,8198,8199,8200,8201,8202,8232,8233,8239,8287,12288}"
  unfolding isspace_def by (elim disjE conjE; simp; arith)

lemma digit_val_special:
  "\<forall>c \<in> {9,10,11,12,13,28,29,30,31,32,133,160,5760,8192,8193,8194,8195,8196,8197,8198,8199,8200,8201,8202,8232,8233,8239,8287,12288,58,46,45}. digit_val c = None"
  by (simp add: digit_val_def nd_zeros_def)

lemma isdecimal_not_space: "isdecimal c \<Longrightarrow> \<not> isspace c"
  using isspace_enum[of c] digit_val_special by (auto simp: isdecimal_def)

lemma isdecimal_neq [simp]:
  "isdecimal c \<Longrightarrow> (c = 58) = False"
  "isdecimal c \<Longrightarrow> (c = 46) = False"
  "isdecimal c \<Longrightarrow> (c = 45) = False"
  "isdecimal c \<Longrightarrow> (c = 10) = False"
  using digit_val_special by (auto simp: isdecimal_def)

lemma digits12_cases:
  assumes "digits12 g"
  obtains a where "g = [a]" "isdecimal a" | a b where "g = [a, b]" "isdecimal a" "isdecimal b"
proof -
  from assms have l: "length g = 1 \<or> length g = 2" and d: "list_all isdecimal g"
    by (simp_all add: digits12_def)
  from l show thesis
  proof
    assume "length g = 1"
    then obtain a where "g = [a]" by (cases g) auto
    with d that show thesis by simp
  next
    assume "length g = 2"
    then obtain a b where "g = [a, b]" by (cases g; cases "tl g") auto
    with d that show thesis by simp
  qed
qed

lemma isdecimal_space_False [simp]: "isdecimal c \<Longrightarrow> isspace c = False"
  by (simp add: isdecimal_not_space)

lemma isspace_58 [simp]: "isspace 58 = False" "isspace 46 = False" "isspace 45 = False"
  by (simp_all add: isspace_def)
lemma isdecimal_58 [simp]: "isdecimal 58 = False" "isdecimal 46 = False" "isdecimal 45 = False"
  using digit_val_special by (simp_all add: isdecimal_def)

lemma re_hhmmss_hm:
  assumes "digits12 hs" "digits12 ms"
  shows "re_hhmmss (hs @ 58 # ms) = Some (hs, ms)"
  using assms(1)
proof (cases rule: digits12_cases)
  case 1
  from assms(2) show ?thesis
    by (cases rule: digits12_cases) (simp_all add: 1 re_hhmmss_def re_first_def re_opt_seconds_def re_end_def)
next
  case 2
  from assms(2) show ?thesis
    by (cases rule: digits12_cases) (simp_all add: 2 re_hhmmss_def re_first_def re_opt_seconds_def re_end_def)
qed

lemma re_hhmmss_hms:
  assumes "digits12 hs" "digits12 ms" "digits12 ss"
  shows "re_hhmmss (hs @ 58 # ms @ 58 # ss) = Some (hs, ms)"
  using assms(1)
proof (cases rule: digits12_cases)
  case 1
  from assms(2) show ?thesis
  proof (cases rule: digits12_cases)
    case h1: 1
    from assms(3) show ?thesis
    by (cases rule: digits12_cases) (simp_all add: 1 h1 re_hhmmss_def re_first_def re_opt_seconds_def re_end_def)
  next
    case h2: 2
    from assms(3) show ?thesis
    by (cases rule: digits12_cases) (simp_all add: 1 h2 re_hhmmss_def re_first_def re_opt_seconds_def re_end_def)
  qed
next
  case 2
  from assms(2) show ?thesis
  proof (cases rule: digits12_cases)
    case h1: 1
    from assms(3) show ?thesis
    by (cases rule: digits12_cases) (simp_all add: 2 h1 re_hhmmss_def re_first_def re_opt_seconds_def re_end_def)
  next
    case h2: 2
    from assms(3) show ?thesis
    by (cases rule: digits12_cases) (simp_all add: 2 h2 re_hhmmss_def re_first_def re_opt_seconds_def re_end_def)
  qed
qed


lemma re_separated_hm:
  assumes "digits12 hs" "digits12 ms" "c = 58 \<or> c = 46 \<or> c = 45 \<or> isspace c"
  shows "re_separated (hs @ c # ms) = Some (hs, ms)"
  using assms(1)
proof (cases rule: digits12_cases)
  case 1
  from assms(2) show ?thesis
    using assms(3) by (cases rule: digits12_cases) (auto simp add: 1 re_separated_def re_first_def re_end_def)
next
  case 2
  from assms(2) show ?thesis
    using assms(3) by (cases rule: digits12_cases) (auto simp add: 2 re_separated_def re_first_def re_end_def)
qed

lemma re_hhmmss_sep:
  assumes "digits12 hs" "digits12 ms" "c \<noteq> 58"
  shows "re_hhmmss (hs @ c # ms) = None"
  using assms(1)
proof (cases rule: digits12_cases)
  case 1
  from assms(2) show ?thesis
    using assms(3) by (cases rule: digits12_cases) (auto simp add: 1 re_hhmmss_def re_first_def re_end_def)
next
  case 2
  from assms(2) show ?thesis
    using assms(3) by (cases rule: digits12_cases) (auto simp add: 2 re_hhmmss_def re_first_def re_end_def)
qed

lemma re_hours_sep:
  assumes "digits12 hs" "digits12 ms" "c = 58 \<or> c = 46 \<or> c = 45 \<or> isspace c"
  shows "re_hours (hs @ c # ms) = None"
  using assms(1)
proof (cases rule: digits12_cases)
  case 1
  from assms(2) show ?thesis
    using assms(3) by (cases rule: digits12_cases) (auto simp add: 1 re_hours_def re_first_def re_end_def)
next
  case 2
  from assms(2) show ?thesis
    using assms(3) by (cases rule: digits12_cases) (auto simp add: 2 re_hours_def re_first_def re_end_def)
qed

lemma py_strip_id:
  assumes "s \<noteq> []" "\<not> isspace (hd s)" "\<not> isspace (last s)"
  shows "py_strip s = s"
proof -
  from assms(1,2) have a: "dropWhile isspace s = s" by (cases s) auto
  from assms(1,3) have b: "dropWhile isspace (rev s) = rev s"
    by (cases "rev s") (auto simp: last_rev[symmetric] hd_rev)
  show ?thesis by (simp add: py_strip_def a b)
qed

lemma py_strip_blank:
  assumes "list_all isspace s"
  shows "py_strip s = []"
proof -
  have "list_all isspace s \<Longrightarrow> dropWhile isspace s = []" by (induction s) auto
  from this[OF assms] show ?thesis by (simp only: py_strip_def rev.simps dropWhile.simps)
qed

lemma py_int_digits12:
  "py_int g = Inr n \<and> length g \<le> 2 \<longleftrightarrow> digits12 g \<and> n = digits_value g 0"
  by (cases g; cases "tl g") (auto simp: py_int_def digits12_def)

lemma digits12_not_space:
  assumes "digits12 g"
  shows "g \<noteq> []" "\<not> isspace (hd g)" "\<not> isspace (last g)" "isdecimal (hd g)" "isdecimal (last g)"
  using assms by (cases rule: digits12_cases; simp)+

lemma digits_value_nonneg: "0 \<le> acc \<Longrightarrow> 0 \<le> digits_value s acc"
  by (induction s arbitrary: acc) (auto split: option.splits)

lemma py_int_nonneg: "py_int g = Inr n \<Longrightarrow> 0 \<le> n"
  by (auto simp: py_int_def digits_value_nonneg split: if_splits)

lemma strip_hm:
  assumes "digits12 hs" "digits12 ms"
  shows "py_strip (hs @ c # ms) = hs @ c # ms"
  using digits12_not_space[OF assms(1)] digits12_not_space[OF assms(2)]
  by (intro py_strip_id) (simp_all add: hd_append)

lemma strip_hms:
  assumes "digits12 hs" "digits12 ss"
  shows "py_strip (hs @ c # ms @ d # ss) = hs @ c # ms @ d # ss"
  using digits12_not_space[OF assms(1)] digits12_not_space[OF assms(2)]
  by (intro py_strip_id) (simp_all add: hd_append)

lemma check_hm_eq:
  assumes "py_int hs = Inr h" "py_int ms = Inr m"
  shows "check_hm hs ms = (if h \<le> 23 \<and> m \<le> 59 then Inr (Some (h, m)) else Inr None)"
  using assms py_int_nonneg[OF assms(1)] py_int_nonneg[OF assms(2)]
  by (simp add: check_hm_def in_range_def)

lemma normalize_time_hm:
  assumes h: "py_int hs = Inr h" "length hs \<le> 2" and m: "py_int ms = Inr m" "length ms \<le> 2"
  shows "normalize_time (hs @ 58 # ms) = (if h \<le> 23 \<and> m \<le> 59 then Inr (Some (h, m)) else Inr None)"
proof -
  from h m have d: "digits12 hs" "digits12 ms" using py_int_digits12 by blast+
  have "re_hours (hs @ 58 # ms) = None" using d by (intro re_hours_sep) simp_all
  then show ?thesis
    by (simp add: normalize_time_def strip_hm[OF d] time_hhmmss_def time_separated_def time_hours_def
        re_hhmmss_hm[OF d] re_separated_hm[OF d] check_hm_eq[OF h(1) m(1)])
qed


lemma re_separated_hms:
  assumes "digits12 hs" "digits12 ms" "digits12 ss"
  shows "re_separated (hs @ 58 # ms @ 58 # ss) = None"
  using assms(1)
proof (cases rule: digits12_cases)
  case 1
  from assms(2) show ?thesis
    by (cases rule: digits12_cases) (simp_all add: 1 re_separated_def re_first_def re_end_def)
next
  case 2
  from assms(2) show ?thesis
    by (cases rule: digits12_cases) (simp_all add: 2 re_separated_def re_first_def re_end_def)
qed

lemma re_hours_hms:
  assumes "digits12 hs"
  shows "re_hours (hs @ 58 # r) = None"
  using assms(1)
  by (cases rule: digits12_cases) (simp_all add: re_hours_def re_first_def re_end_def)

lemma re_bare:
  assumes "digits12 hs"
  shows "re_hhmmss hs = None" "re_separated hs = None" "re_hours hs = Some hs"
  using assms(1)
  by (cases rule: digits12_cases; simp add: re_hhmmss_def re_separated_def re_hours_def re_first_def re_end_def)+

lemma normalize_time_hms:
  assumes h: "py_int hs = Inr h" "length hs \<le> 2" and m: "py_int ms = Inr m" "length ms \<le> 2"
    and s: "digits12 ss"
  shows "normalize_time (hs @ 58 # ms @ 58 # ss) = (if h \<le> 23 \<and> m \<le> 59 then Inr (Some (h, m)) else Inr None)"
proof -
  from h m have d: "digits12 hs" "digits12 ms" using py_int_digits12 by blast+
  show ?thesis
    by (simp add: normalize_time_def strip_hms[OF d(1) s] time_hhmmss_def time_separated_def time_hours_def
        re_hhmmss_hms[OF d s] re_separated_hms[OF d s] re_hours_hms[OF d(1)] check_hm_eq[OF h(1) m(1)])
qed

lemma normalize_time_sep:
  assumes h: "py_int hs = Inr h" "length hs \<le> 2" and m: "py_int ms = Inr m" "length ms \<le> 2"
    and c: "c = 58 \<or> c = 46 \<or> c = 45 \<or> isspace c"
  shows "normalize_time (hs @ c # ms) = (if h \<le> 23 \<and> m \<le> 59 then Inr (Some (h, m)) else Inr None)"
proof (cases "c = 58")
  case True
  then show ?thesis using normalize_time_hm[OF h m] by simp
next
  case False
  from h m have d: "digits12 hs" "digits12 ms" using py_int_digits12 by blast+
  show ?thesis
    by (simp add: normalize_time_def strip_hm[OF d] time_hhmmss_def time_separated_def time_hours_def
        re_hhmmss_sep[OF d False] re_separated_hm[OF d c] re_hours_sep[OF d c] check_hm_eq[OF h(1) m(1)])
qed

lemma normalize_time_bare:
  assumes h: "py_int hs = Inr h" "length hs \<le> 2"
  shows "normalize_time hs = (if h \<le> 23 then Inr (Some (h, 0)) else Inr None)"
proof -
  from h have d: "digits12 hs" using py_int_digits12 by blast
  have "py_strip hs = hs" using digits12_not_space[OF d] by (intro py_strip_id)
  then show ?thesis using py_int_nonneg[OF h(1)]
    by (simp add: normalize_time_def time_hhmmss_def time_separated_def time_hours_def
        re_bare[OF d] h(1) in_range_def)
qed

lemma normalize_time_blank:
  assumes "list_all isspace s"
  shows "normalize_time s = Inr None"
  by (simp add: normalize_time_def py_strip_blank[OF assms] time_hhmmss_def time_separated_def
      time_hours_def re_hhmmss_def re_separated_def re_hours_def re_first_def re_end_def)

lemma py_int_examples:
  "py_int [49, 54] = Inr 16" "py_int [48, 48] = Inr 0" "py_int [51, 48] = Inr 30"
  "py_int [57, 57] = Inr 99" "py_int [50, 52] = Inr 24" "py_int [54, 48] = Inr 60"
  by (simp_all add: py_int_def isdecimal_def digit_val_def nd_zeros_def)

lemma py_int_more:
  "py_int [55] = Inr 7" "py_int [48, 53] = Inr 5" "py_int [57] = Inr 9"
  by (simp_all add: py_int_def isdecimal_def digit_val_def nd_zeros_def)

section \<open>Parsing a row never raises on six cells\<close>

lemma re_digits12_group: "(g, r) \<in> set (re_digits12 s) \<Longrightarrow> digits12 g"
  by (cases s rule: re_digits12.cases) (auto simp: digits12_def split: if_splits)

lemma re_first_Some: "re_first ms = Some x \<Longrightarrow> x \<in> set ms"
  by (cases ms) (auto simp: re_first_def)

lemma re_hhmmss_groups: "re_hhmmss s = Some (g1, g2) \<Longrightarrow> digits12 g1 \<and> digits12 g2"
  by (auto simp: re_hhmmss_def split: if_splits dest!: re_first_Some dest: re_digits12_group)

lemma re_separated_groups: "re_separated s = Some (g1, g2) \<Longrightarrow> digits12 g1 \<and> digits12 g2"
  by (auto simp: re_separated_def split: if_splits dest!: re_first_Some dest: re_digits12_group)

lemma re_hours_group: "re_hours s = Some g1 \<Longrightarrow> digits12 g1"
  by (auto simp: re_hours_def split: if_splits dest!: re_first_Some dest: re_digits12_group)

lemma digits12_py_int: "digits12 g \<Longrightarrow> py_int g = Inr (digits_value g 0)"
  using py_int_digits12[of g "digits_value g 0"] by simp

lemma check_hm_total: "digits12 g1 \<Longrightarrow> digits12 g2 \<Longrightarrow> \<exists>r. check_hm g1 g2 = Inr r"
  by (simp add: check_hm_def digits12_py_int)

lemma time_hhmmss_total: "\<exists>r. time_hhmmss s = Inr r"
  by (auto simp: time_hhmmss_def split: option.splits dest!: re_hhmmss_groups intro: check_hm_total)

lemma time_separated_total: "\<exists>r. time_separated s = Inr r"
  by (auto simp: time_separated_def split: option.splits dest!: re_separated_groups intro: check_hm_total)

lemma time_hours_total: "\<exists>r. time_hours s = Inr r"
  by (auto simp: time_hours_def digits12_py_int split: option.splits dest!: re_hours_group)

lemma normalize_time_total: "\<exists>r. normalize_time s = Inr r"
proof -
  obtain a b c where "time_hhmmss (py_strip s) = Inr a" "time_separated (py_strip s) = Inr b"
    "time_hours (py_strip s) = Inr c"
    using time_hhmmss_total time_separated_total time_hours_total by blast
  then show ?thesis by (simp add: normalize_time_def Let_def split: option.splits)
qed

lemma re_search_digits_group:
  assumes "re_search_digits s = Some g"
  shows "g \<noteq> [] \<and> list_all isdecimal g"
proof -
  let ?t = "dropWhile (\<lambda>c. \<not> isdecimal c) s"
  from assms have t: "?t \<noteq> []" and g: "g = takeWhile isdecimal ?t"
    by (auto simp: re_search_digits_def Let_def split: if_splits)
  from t have "isdecimal (hd ?t)" using hd_dropWhile[of "\<lambda>c. \<not> isdecimal c" s] by simp
  with t have "g \<noteq> []" unfolding g by (cases ?t) auto
  moreover have "list_all isdecimal g" unfolding g list_all_iff by (auto dest: set_takeWhileD)
  ultimately show ?thesis by simp
qed

lemma extract_first_digits_total: "\<exists>r. extract_first_digits s = Inr r"
  by (auto simp: extract_first_digits_def py_int_def split: option.splits dest!: re_search_digits_group)

lemma parse_fields_total: "\<exists>r. parse_fields idx msg per dt wd tm = Inr r"
proof -
  obtain a where a: "normalize_time tm = Inr a" using normalize_time_total by blast
  obtain b where b: "extract_first_digits dt = Inr b" using extract_first_digits_total by blast
  show ?thesis by (simp add: parse_fields_def a b split: option.splits prod.splits)
qed

lemma parse_row_total:
  assumes "6 \<le> length row"
  shows "\<exists>r. parse_row idx row = Inr r"
  using assms parse_fields_total[of idx] by (cases row) (auto simp: parse_row_def cell_def)

lemma length_pad_row [simp]: "length (pad_row row) = 6"
  by (simp add: pad_row_def)


lemma pad_row_id [simp]: "length row = 6 \<Longrightarrow> pad_row row = row"
  by (simp add: pad_row_def)

lemma parse_fields_key:
  "parse_fields idx msg per dt wd tm = Inr (ws, Some it) \<Longrightarrow> item_key it = row_key idx \<and> ws = []"
  by (auto simp: parse_fields_def split: if_splits sum.splits option.splits prod.splits)

lemma parse_row_key:
  "parse_row idx row = Inr (ws, Some it) \<Longrightarrow> item_key it = row_key idx \<and> ws = []"
  by (auto simp: parse_row_def split: if_splits sum.splits dest: parse_fields_key)

section \<open>The status gate and the examples' cells\<close>

lemma log_add_Nil [simp]: "log_add [] w = w"
  by (simp add: log_add_def)

lemma jobs_log_add [simp]: "jobs (log_add es w) = jobs w"
  by (simp add: log_add_def)



lemma parse_row_active:
  assumes "length row = 6" "py_upper (py_strip (row ! 0)) \<in> set truthy"
  shows "parse_row idx row =
    parse_fields idx (py_strip (row ! 1)) (py_lower (py_strip (row ! 2))) (py_strip (row ! 3))
      (py_lower (py_strip (row ! 4))) (py_strip (row ! 5))"
  using assms by (simp add: parse_row_def cell_def)


lemma strip_examples:
  "py_strip (ascii ''TRUE'') = ascii ''TRUE''" "py_strip (ascii ''FALSE'') = ascii ''FALSE''"
  "py_strip (ascii ''Sync'') = ascii ''Sync''" "py_strip (ascii ''14:00'') = ascii ''14:00''"
  "py_strip (ascii ''Standup'') = ascii ''Standup''" "py_strip (ascii ''09:30'') = ascii ''09:30''"
  "py_strip [] = []" "py_strip [1087, 1085] = [1087, 1085]"
  "py_strip period_day = period_day" "py_strip period_week = period_week"
  by (simp_all add: py_strip_def ascii_def isspace_def period_day_def period_week_def)

lemma case_examples:
  "py_upper (ascii ''TRUE'') = ascii ''TRUE''" "py_upper (ascii ''FALSE'') = ascii ''FALSE''"
  "py_lower [] = []" "py_lower [1087, 1085] = [1087, 1085]"
  "py_lower period_day = period_day" "py_lower period_week = period_week"
  by (simp_all add: py_upper_def py_lower_def upper_cp_def lower_cp_def ascii_def
      period_day_def period_week_def)

lemma truthy_examples: "ascii ''TRUE'' \<in> set truthy" "ascii ''FALSE'' \<notin> set truthy"
  by (simp_all add: truthy_def ascii_def)

section \<open>Weekly rows, and the row loop never raises\<close>





lemma py_int_14: "py_int [49, 52] = Inr 14" "py_int [48, 57] = Inr 9"
  by (simp_all add: py_int_def isdecimal_def digit_val_def nd_zeros_def)

lemma normalize_time_examples:
  "normalize_time (ascii ''14:00'') = Inr (Some (14, 0))"
  "normalize_time (ascii ''09:30'') = Inr (Some (9, 30))"
  using normalize_time_hm[of "[49, 52]" 14 "[48, 48]" 0]
    normalize_time_hm[of "[48, 57]" 9 "[51, 48]" 30]
  by (simp_all add: py_int_14 py_int_examples ascii_def)





section \<open>A fetch that fails\<close>

lemma jobs_debug_list_jobs [simp]: "jobs (debug_list_jobs w) = jobs w"
  by (simp add: debug_list_jobs_def Let_def)

lemma get_sheet_jobs: "jobs (snd (get_sheet src w)) = jobs w"
  by (simp add: get_sheet_def Let_def split: option.splits exn.splits)

lemma get_sheet_fetched: "\<exists>w1. get_sheet (fetched values) w = (None, w1) \<and> jobs w1 = jobs w"
  by (simp add: get_sheet_def fetched_def Let_def)

lemma get_sheet_fails:
  assumes "authorize src \<noteq> None \<or> open_by_key src \<noteq> None \<or> worksheet src \<noteq> None"
  shows "\<exists>e w1. get_sheet src w = (Some e, w1) \<and> jobs w1 = jobs w"
  using assms by (auto simp: get_sheet_def Let_def split: option.splits exn.splits)

lemma refresh_fails:
  assumes "fetch_fails src"
  shows "\<exists>e w'. refresh_schedule src w = (Some e, w') \<and> jobs w' = jobs w"
proof (cases "authorize src \<noteq> None \<or> open_by_key src \<noteq> None \<or> worksheet src \<noteq> None")
  case True
  from get_sheet_fails[OF this, of w] show ?thesis by (auto simp: refresh_schedule_def)
next
  case False
  with assms obtain e where e: "get_all_values src = Inl e"
    by (cases "get_all_values src") (auto simp: fetch_fails_def)
  obtain r w1 where g: "get_sheet src w = (r, w1)" by (cases "get_sheet src w")
  with get_sheet_jobs[of src w] have j: "jobs w1 = jobs w" by simp
  show ?thesis by (cases r) (simp_all add: refresh_schedule_def g e j)
qed

lemma poll_fails:
  assumes "fetch_fails src"
  shows "fst (poll src w) = None \<and> jobs (snd (poll src w)) = jobs w"
  using refresh_fails[OF assms, of w] by (auto simp: poll_def)

lemma poll_never_raises: "fst (poll src w) = None"
  by (simp add: poll_def split: prod.splits option.splits)

section \<open>The two loops of \<open>refresh_schedule\<close>\<close>

lemma schedule_job_upsert: "schedule_job it reg = Inr (upsert it reg)"
proof (cases "get_job (item_key it) reg")
  case None
  then have "item_key it \<notin> fst ` set reg" by (simp add: get_job_def map_of_eq_None_iff)
  then show ?thesis using None by (simp add: schedule_job_def upsert_def add_job_def Let_def)
next
  case (Some old)
  then have "item_key it \<in> fst ` set reg"
    unfolding get_job_def by (metis map_of_eq_None_iff option.distinct(1))
  with Some show ?thesis
    by (simp add: schedule_job_def remove_job_def upsert_def add_job_def Let_def)
qed

lemma keys_delete: "fst ` set (AList.delete k al) = fst ` set al - {k}"
  by (auto simp: AList.delete_eq)

lemma keys_upsert: "fst ` set (upsert it reg) = insert (item_key it) (fst ` set reg)"
  by (auto simp: upsert_def AList.dom_update keys_delete)

lemma distinct_upsert: "distinct (map fst reg) \<Longrightarrow> distinct (map fst (upsert it reg))"
  by (simp add: upsert_def AList.distinct_update AList.distinct_delete)

lemma map_of_upsert: "map_of (upsert it reg) = (map_of reg)(item_key it \<mapsto> item_job it)"
  by (simp add: upsert_def AList.update_conv' AList.delete_conv')

lemma keys_fold_upsert:
  "fst ` set (fold upsert its reg) = fst ` set reg \<union> item_key ` set its"
  by (induction its arbitrary: reg) (auto simp: keys_upsert)

lemma distinct_fold_upsert:
  "distinct (map fst reg) \<Longrightarrow> distinct (map fst (fold upsert its reg))"
  by (induction its arbitrary: reg) (simp_all add: distinct_upsert)

lemma map_of_fold_upsert_other:
  "k \<notin> item_key ` set its \<Longrightarrow> map_of (fold upsert its reg) k = map_of reg k"
  by (induction its arbitrary: reg) (auto simp: map_of_upsert)

lemma map_of_fold_upsert_item:
  "distinct (map item_key its) \<Longrightarrow> it \<in> set its \<Longrightarrow>
   map_of (fold upsert its reg) (item_key it) = Some (item_job it)"
proof (induction its arbitrary: reg)
  case Nil
  then show ?case by simp
next
  case (Cons a its)
  show ?case
  proof (cases "it \<in> set its")
    case True
    with Cons show ?thesis by simp
  next
    case False
    with Cons.prems have a: "a = it" and n: "item_key it \<notin> item_key ` set its" by auto
    show ?thesis using map_of_fold_upsert_other[OF n] by (simp add: a map_of_upsert)
  qed
qed

lemma rows_loop_eq:
  "\<exists>w'. rows_loop rs active_keys planned w =
      (None, active_keys \<union> item_key ` set (parsed_items rs),
       planned + length (parsed_items rs), w')
     \<and> jobs w' = fold upsert (parsed_items rs) (jobs w)"
proof (induction rs arbitrary: active_keys planned w)
  case Nil
  show ?case by (simp add: parsed_items_def)
next
  case (Cons a rs)
  obtain idx row where a: "a = (idx, row)" by (cases a)
  obtain ws r where p: "parse_row idx (pad_row row) = Inr (ws, r)"
    using parse_row_total[of "pad_row row" idx] by auto
  show ?case
  proof (cases r)
    case None
    have pi: "parsed_items ((idx, row) # rs) = parsed_items rs"
      by (simp add: parsed_items_def p None)
    from Cons.IH[of active_keys planned "log_add ws w"]
    show ?thesis by (simp add: a p None pi)
  next
    case (Some it)
    have pi: "parsed_items ((idx, row) # rs) = it # parsed_items rs"
      by (simp add: parsed_items_def p Some)
    from Cons.IH[of "insert (item_key it) active_keys" "planned + 1"
        "(log_add ws w)\<lparr>jobs := upsert it (jobs w)\<rparr>"]
    show ?thesis by (simp add: a p Some pi schedule_job_upsert)
  qed
qed

lemma remove_stale_eq:
  assumes "distinct (map fst js)" "fst ` set js \<subseteq> fst ` set reg"
  shows "remove_stale js active_keys reg =
    (None, filter (\<lambda>p. \<not> (fst p \<in> fst ` set js \<and> stale active_keys (fst p))) reg)"
  using assms
proof (induction js arbitrary: reg)
  case Nil
  show ?case by simp
next
  case (Cons a js)
  obtain k j where a: "a = (k, j)" by (cases a)
  from Cons.prems a have d: "distinct (map fst js)" and nk: "k \<notin> fst ` set js"
    and kin: "k \<in> fst ` set reg" and sub: "fst ` set js \<subseteq> fst ` set reg" by auto
  show ?case
  proof (cases "stale active_keys k")
    case True
    have sub': "fst ` set js \<subseteq> fst ` set (AList.delete k reg)"
      using sub nk by (auto simp: keys_delete)
    have "remove_stale (a # js) active_keys reg = remove_stale js active_keys (AList.delete k reg)"
      using True kin by (simp add: a stale_def remove_job_def)
    also have "\<dots> = (None, filter (\<lambda>p. \<not> (fst p \<in> fst ` set js \<and> stale active_keys (fst p)))
        (AList.delete k reg))"
      by (rule Cons.IH[OF d sub'])
    also have "filter (\<lambda>p. \<not> (fst p \<in> fst ` set js \<and> stale active_keys (fst p))) (AList.delete k reg)
      = filter (\<lambda>p. \<not> (fst p \<in> fst ` set (a # js) \<and> stale active_keys (fst p))) reg"
      using True by (auto simp: AList.delete_eq a intro!: filter_cong)
    finally show ?thesis .
  next
    case False
    have "remove_stale (a # js) active_keys reg = remove_stale js active_keys reg"
      using False by (auto simp add: a stale_def)
    also have "\<dots> = (None, filter (\<lambda>p. \<not> (fst p \<in> fst ` set js \<and> stale active_keys (fst p))) reg)"
      by (rule Cons.IH[OF d sub])
    also have "filter (\<lambda>p. \<not> (fst p \<in> fst ` set js \<and> stale active_keys (fst p))) reg
      = filter (\<lambda>p. \<not> (fst p \<in> fst ` set (a # js) \<and> stale active_keys (fst p))) reg"
      using False by (auto simp: a intro!: filter_cong)
    finally show ?thesis .
  qed
qed

lemma remove_stale_all:
  assumes "distinct (map fst reg)"
  shows "remove_stale (get_jobs reg) active_keys reg =
    (None, filter (\<lambda>p. \<not> stale active_keys (fst p)) reg)"
proof -
  have "filter (\<lambda>p. \<not> (fst p \<in> fst ` set reg \<and> stale active_keys (fst p))) reg
      = filter (\<lambda>p. \<not> stale active_keys (fst p)) reg"
    by (auto intro!: filter_cong)
  with remove_stale_eq[OF assms, of reg active_keys] show ?thesis by (simp add: get_jobs_def)
qed

section \<open>Row keys\<close>

lemma digits_of_nat_value:
  "foldl (\<lambda>a c. 10 * a + (c - 48)) 0 (digits_of_nat n) = n"
proof (induction n rule: digits_of_nat.induct)
  case (1 n)
  show ?case
  proof (cases "n < 10")
    case True
    then show ?thesis by (simp add: digits_of_nat.simps[of n])
  next
    case False
    with 1 show ?thesis by (simp add: digits_of_nat.simps[of n])
  qed
qed

lemma digits_of_nat_inj: "digits_of_nat m = digits_of_nat n \<Longrightarrow> m = n"
  by (metis digits_of_nat_value)

lemma digits_of_nat_hd: "digits_of_nat n \<noteq> [] \<and> 48 \<le> hd (digits_of_nat n)"
proof (induction n rule: digits_of_nat.induct)
  case (1 n)
  show ?case
  proof (cases "n < 10")
    case True
    then show ?thesis by (simp add: digits_of_nat.simps[of n])
  next
    case False
    with 1 show ?thesis by (simp add: digits_of_nat.simps[of n] hd_append)
  qed
qed

lemma digits_of_nat_not_minus: "digits_of_nat n \<noteq> 45 # xs"
  using digits_of_nat_hd[of n] by (cases "digits_of_nat n") auto

lemma py_str_int_inj: "py_str_int i = py_str_int j \<Longrightarrow> i = j"
proof -
  assume e: "py_str_int i = py_str_int j"
  show "i = j"
  proof (cases "i < 0"; cases "j < 0")
    assume "i < 0" "j < 0"
    with e have "nat (- i) = nat (- j)" by (simp add: py_str_int_def digits_of_nat_inj)
    with \<open>i < 0\<close> \<open>j < 0\<close> show ?thesis by simp
  next
    assume "i < 0" "\<not> j < 0"
    with e digits_of_nat_not_minus[of "nat j"] show ?thesis
      by (simp add: py_str_int_def) metis
  next
    assume "\<not> i < 0" "j < 0"
    with e digits_of_nat_not_minus[of "nat i"] show ?thesis
      by (simp add: py_str_int_def)
  next
    assume "\<not> i < 0" "\<not> j < 0"
    with e have "nat i = nat j" by (simp add: py_str_int_def digits_of_nat_inj)
    with \<open>\<not> i < 0\<close> \<open>\<not> j < 0\<close> show ?thesis by simp
  qed
qed

lemma row_key_inj: "inj row_key"
  by (rule injI) (simp add: row_key_def py_str_int_inj)

lemma row_key_prefix: "startswith (row_key idx) row_prefix"
  by (simp add: row_key_def startswith_def)

lemma row_key_examples:
  "row_key 1 = ascii ''row-1''" "row_key 2 = ascii ''row-2''" "row_key 3 = ascii ''row-3''"
  by (simp_all add: row_key_def row_prefix_def py_str_int_def ascii_def
      digits_of_nat.simps[of "Suc 0"] digits_of_nat.simps[of 2] digits_of_nat.simps[of 3])

lemma parsed_items_Cons:
  "parsed_items ((idx, row) # rs) =
    (case parse_row idx (pad_row row) of Inr (ws, Some it) \<Rightarrow> [it] | _ \<Rightarrow> []) @ parsed_items rs"
  by (simp add: parsed_items_def)

lemma parsed_items_keys:
  "it \<in> set (parsed_items rs) \<Longrightarrow> \<exists>idx \<in> fst ` set rs. item_key it = row_key idx"
proof (induction rs)
  case Nil
  then show ?case by (simp add: parsed_items_def)
next
  case (Cons a rs)
  obtain idx row where a: "a = (idx, row)" by (cases a)
  obtain ws r where p: "parse_row idx (pad_row row) = Inr (ws, r)"
    using parse_row_total[of "pad_row row" idx] by auto
  from Cons.prems have "it \<in> set (parsed_items rs) \<or> (\<exists>ws. parse_row idx (pad_row row) = Inr (ws, Some it))"
    by (cases r) (auto simp: a parsed_items_Cons p)
  then show ?case
  proof
    assume "it \<in> set (parsed_items rs)"
    from Cons.IH[OF this] show ?thesis by auto
  next
    assume "\<exists>ws. parse_row idx (pad_row row) = Inr (ws, Some it)"
    then have "item_key it = row_key idx" by (auto dest: parse_row_key)
    then show ?thesis by (simp add: a)
  qed
qed

lemma parsed_items_prefix:
  "it \<in> set (parsed_items rs) \<Longrightarrow> startswith (item_key it) row_prefix"
  using parsed_items_keys[of it rs] row_key_prefix by auto

lemma parsed_items_distinct:
  "distinct (map fst rs) \<Longrightarrow> distinct (map item_key (parsed_items rs))"
proof (induction rs)
  case Nil
  show ?case by (simp add: parsed_items_def)
next
  case (Cons a rs)
  obtain idx row where a: "a = (idx, row)" by (cases a)
  from Cons.prems a have ni: "idx \<notin> fst ` set rs" and d: "distinct (map fst rs)" by auto
  have fresh: "row_key idx \<notin> item_key ` set (parsed_items rs)"
  proof
    assume "row_key idx \<in> item_key ` set (parsed_items rs)"
    then obtain it where "it \<in> set (parsed_items rs)" "item_key it = row_key idx" by auto
    with parsed_items_keys[of it rs] obtain j where "j \<in> fst ` set rs" "row_key idx = row_key j"
      by auto
    with row_key_inj ni show False by (auto dest: injD)
  qed
  obtain ws r where p: "parse_row idx (pad_row row) = Inr (ws, r)"
    using parse_row_total[of "pad_row row" idx] by auto
  show ?case
  proof (cases r)
    case None
    then show ?thesis using Cons.IH[OF d] by (simp add: a parsed_items_Cons p)
  next
    case (Some it)
    with p have "item_key it = row_key idx" by (auto dest: parse_row_key)
    then show ?thesis using Cons.IH[OF d] fresh by (simp add: a parsed_items_Cons p Some)
  qed
qed

lemma fst_enumerate_from:
  "map fst (enumerate_from n xs) = map (\<lambda>i. n + int i) [0..<length xs]"
proof (induction xs arbitrary: n)
  case Nil
  show ?case by simp
next
  case (Cons x xs)
  have "map (\<lambda>i. n + int i) [0..<length (x # xs)] = n # map (\<lambda>i. n + 1 + int i) [0..<length xs]"
    by (simp add: upt_conv_Cons map_Suc_upt[symmetric] del: upt_Suc)
  then show ?case using Cons.IH[of "n + 1"] by simp
qed

lemma distinct_enumerate_from: "distinct (map fst (enumerate_from n xs))"
  by (simp add: fst_enumerate_from distinct_map inj_on_def)

lemma enumerate_from_nth:
  "i < length xs \<Longrightarrow> enumerate_from n xs ! i = (n + int i, xs ! i)"
proof (induction xs arbitrary: n i)
  case Nil
  then show ?case by simp
next
  case (Cons x xs)
  then show ?case by (cases i) (simp_all add: algebra_simps)
qed

lemma length_enumerate_from [simp]: "length (enumerate_from n xs) = length xs"
  by (induction xs arbitrary: n) simp_all

lemma accepted_distinct: "distinct (map item_key (accepted values))"
  by (simp add: accepted_def parsed_items_distinct distinct_enumerate_from)

lemma accepted_prefix: "it \<in> set (accepted values) \<Longrightarrow> startswith (item_key it) row_prefix"
  by (simp add: accepted_def parsed_items_prefix)

section \<open>One whole cycle\<close>

lemma map_of_filter_key:
  "map_of (filter (\<lambda>p. \<not> stale A (fst p)) xs) k = (if stale A k then None else map_of xs k)"
  by (induction xs) auto

lemma keys_filter:
  "fst ` set (filter (\<lambda>p. \<not> stale A (fst p)) xs) = {k \<in> fst ` set xs. \<not> stale A k}"
  by (induction xs) auto

lemma refresh_short:
  assumes "length values < 2"
  shows "\<exists>w'. refresh_schedule (fetched values) w = (None, w') \<and> jobs w' = jobs w"
proof -
  obtain w1 where g: "get_sheet (fetched values) w = (None, w1)" "jobs w1 = jobs w"
    using get_sheet_fetched by blast
  have v: "get_all_values (fetched values) = Inr values" by (simp add: fetched_def)
  show ?thesis using assms by (simp add: refresh_schedule_def g v)
qed

lemma refresh_ok:
  assumes "distinct (map fst (jobs w))" "2 \<le> length values"
  shows "\<exists>w'. refresh_schedule (fetched values) w = (None, w') \<and>
     jobs w' = filter (\<lambda>p. \<not> stale (item_key ` set (accepted values)) (fst p))
                 (fold upsert (accepted values) (jobs w))"
proof -
  obtain w1 where g: "get_sheet (fetched values) w = (None, w1)" "jobs w1 = jobs w"
    using get_sheet_fetched by blast
  have v: "get_all_values (fetched values) = Inr values" by (simp add: fetched_def)
  from assms(2) have ne: "values \<noteq> []" "\<not> length values < 2" by auto
  let ?A = "item_key ` set (accepted values)"
  obtain w2 where l: "rows_loop (enumerate_from 2 (drop 1 values)) {} 0 w1 =
      (None, ?A, length (accepted values), w2)"
    and j2: "jobs w2 = fold upsert (accepted values) (jobs w)"
    using rows_loop_eq[of "enumerate_from 2 (drop 1 values)" "{}" 0 w1]
    by (auto simp: accepted_def g(2))
  have d2: "distinct (map fst (jobs w2))"
    unfolding j2 by (rule distinct_fold_upsert[OF assms(1)])
  note r = remove_stale_all[OF d2, of ?A, unfolded j2]
  show ?thesis using l by (simp add: refresh_schedule_def g(1) v ne r j2)
qed

lemma refresh_jobs:
  fixes reg :: registry and vals :: "str list list"
  assumes "distinct (map fst reg)"
  defines "A \<equiv> item_key ` set (accepted vals)"
  defines "R \<equiv> filter (\<lambda>p. \<not> stale A (fst p)) (fold upsert (accepted vals) reg)"
  shows "distinct (map fst R)"
    and "row_job_ids R = A"
    and "\<And>it. it \<in> set (accepted vals) \<Longrightarrow> map_of R (item_key it) = Some (item_job it)"
    and "\<And>k. startswith k row_prefix \<Longrightarrow> k \<notin> A \<Longrightarrow> map_of R k = None"
    and "\<And>k. \<not> startswith k row_prefix \<Longrightarrow> map_of R k = map_of reg k"
proof -
  let ?F = "fold upsert (accepted vals) reg"
  have pre: "\<And>k. k \<in> A \<Longrightarrow> startswith k row_prefix"
    using accepted_prefix by (auto simp: A_def)
  show "distinct (map fst R)"
    unfolding R_def using distinct_fold_upsert[OF assms(1), of "accepted vals"]
    by (simp add: distinct_map_filter)
  have keys: "fst ` set R = {k \<in> fst ` set reg \<union> A. \<not> stale A k}"
    unfolding R_def keys_filter keys_fold_upsert A_def by blast
  show "row_job_ids R = A"
    unfolding row_job_ids_def keys using pre by (auto simp: stale_def)
  show "map_of R (item_key it) = Some (item_job it)" if "it \<in> set (accepted vals)" for it
  proof -
    from that have "\<not> stale A (item_key it)" by (simp add: stale_def A_def)
    then show ?thesis
      unfolding R_def
      by (simp add: map_of_filter_key map_of_fold_upsert_item[OF accepted_distinct that])
  qed
  show "map_of R k = None" if "startswith k row_prefix" "k \<notin> A" for k
  proof -
    from that have "stale A k" by (simp add: stale_def)
    then show ?thesis unfolding R_def by (simp add: map_of_filter_key)
  qed
  show "map_of R k = map_of reg k" if "\<not> startswith k row_prefix" for k
  proof -
    from that pre have "k \<notin> A" by auto
    then have "map_of ?F k = map_of reg k"
      unfolding A_def by (rule map_of_fold_upsert_other)
    moreover from that have "\<not> stale A k" by (simp add: stale_def)
    ultimately show ?thesis unfolding R_def by (simp add: map_of_filter_key)
  qed
qed


lemma refresh_cycle:
  assumes "distinct (map fst (jobs w))" "2 \<le> length values"
  shows "\<exists>w'. refresh_schedule (fetched values) w = (None, w')
    \<and> distinct (map fst (jobs w'))
    \<and> row_job_ids (jobs w') = item_key ` set (accepted values)
    \<and> (\<forall>it \<in> set (accepted values). get_job (item_key it) (jobs w') = Some (item_job it))
    \<and> (\<forall>k. startswith k row_prefix \<and> k \<notin> item_key ` set (accepted values) \<longrightarrow>
          get_job k (jobs w') = None)
    \<and> (\<forall>k. \<not> startswith k row_prefix \<longrightarrow> get_job k (jobs w') = get_job k (jobs w))"
proof -
  from refresh_ok[OF assms] obtain w' where
    r: "refresh_schedule (fetched values) w = (None, w')"
    and j: "jobs w' = filter (\<lambda>p. \<not> stale (item_key ` set (accepted values)) (fst p))
                 (fold upsert (accepted values) (jobs w))" by blast
  note p = refresh_jobs[OF assms(1), where vals = "values", folded j]
  show ?thesis using r p by (auto simp: get_job_def)
qed


lemma parse_fields_daily:
  assumes "msg \<noteq> []" "normalize_time tm = Inr (Some (h, m))"
  shows "parse_fields idx msg period_day dt wd tm = Inr ([], Some (Daily (row_key idx) msg h m))"
  using assms by (simp add: parse_fields_def)

lemma parse_row_standup:
  "parse_row idx [ascii ''TRUE'', ascii ''Standup'', period_day, [], [], ascii ''09:30'']
    = Inr ([], Some (Daily (row_key idx) (ascii ''Standup'') 9 30))"
proof -
  let ?r = "[ascii ''TRUE'', ascii ''Standup'', period_day, [], [], ascii ''09:30'']"
  have "parse_row idx ?r = parse_fields idx (ascii ''Standup'') period_day [] [] (ascii ''09:30'')"
    using parse_row_active[of ?r idx]
    by (simp add: strip_examples case_examples truthy_examples)
  also have "\<dots> = Inr ([], Some (Daily (row_key idx) (ascii ''Standup'') 9 30))"
    by (rule parse_fields_daily) (simp_all add: normalize_time_examples, simp add: ascii_def)
  finally show ?thesis .
qed


lemma accepted_one:
  "accepted [[ascii ''status''],
       [ascii ''TRUE'', ascii ''Standup'', period_day, [], [], ascii ''09:30'']]
    = [Daily (row_key 2) (ascii ''Standup'') 9 30]"
  by (simp add: accepted_def parsed_items_Cons parse_row_standup) (simp add: parsed_items_def)


lemma refresh_one:
  "jobs (snd (refresh_schedule
      (fetched [[ascii ''status''],
         [ascii ''TRUE'', ascii ''Standup'', period_day, [], [], ascii ''09:30'']])
      \<lparr>jobs = [], log = []\<rparr>))
    = [(ascii ''row-2'', Job (CronTrigger None None 9 30) (Send (ascii ''Standup'')))]"
proof -
  let ?g = "[[ascii ''status''],
         [ascii ''TRUE'', ascii ''Standup'', period_day, [], [], ascii ''09:30'']]"
  from refresh_ok[of "\<lparr>jobs = [], log = []\<rparr>" ?g]
  obtain w' where "refresh_schedule (fetched ?g) \<lparr>jobs = [], log = []\<rparr> = (None, w')"
    and "jobs w' = filter (\<lambda>p. \<not> stale (item_key ` set (accepted ?g)) (fst p))
                 (fold upsert (accepted ?g) [])" by auto
  then show ?thesis
    by (simp add: accepted_one upsert_def stale_def item_job_def item_trigger_def row_key_examples)
qed



section \<open>The job store keeps one job per id\<close>

text \<open>
  A new scheduler has no job, and nothing the program does afterwards puts two jobs
  under one id.
\<close>

lemma source_cases: "fetch_fails src \<or> (\<exists>vals. src = fetched vals)"
proof (cases "fetch_fails src")
  case True
  then show ?thesis by simp
next
  case False
  then obtain vals where "get_all_values src = Inr vals"
    by (cases "get_all_values src") (auto simp: fetch_fails_def)
  with False have "src = fetched vals"
    by (cases src) (auto simp: fetch_fails_def fetched_def)
  then show ?thesis by blast
qed

lemma refresh_distinct:
  assumes "distinct (map fst (jobs w))"
  shows "distinct (map fst (jobs (snd (refresh_schedule src w))))"
proof -
  from source_cases[of src] show ?thesis
  proof
    assume "fetch_fails src"
    from refresh_fails[OF this, of w] assms show ?thesis by auto
  next
    assume "\<exists>vals. src = fetched vals"
    then obtain vals where s: "src = fetched vals" by blast
    show ?thesis
    proof (cases "2 \<le> length vals")
      case True
      from refresh_cycle[OF assms True] show ?thesis by (auto simp: s)
    next
      case False
      then have "length vals < 2" by simp
      from refresh_short[OF this, of w] assms show ?thesis by (auto simp: s)
    qed
  qed
qed

lemma poll_distinct:
  assumes "distinct (map fst (jobs w))"
  shows "distinct (map fst (jobs (snd (poll src w))))"
  using refresh_distinct[OF assms, of src]
  by (cases "refresh_schedule src w") (auto simp: poll_def split: option.splits)

lemma tick_distinct:
  assumes "distinct (map fst (jobs w))"
  shows "distinct (map fst (jobs (tick src w)))"
  using assms poll_distinct[OF assms, of src]
  by (simp add: tick_def split: option.splits job.splits func.splits)

lemma ticks_distinct:
  "distinct (map fst (jobs w)) \<Longrightarrow> distinct (map fst (jobs (ticks srcs w)))"
  by (induction srcs arbitrary: w) (simp_all add: tick_distinct)

lemma start_polling_distinct:
  "distinct (map fst (jobs (snd (start_polling seconds src \<lparr>jobs = [], log = []\<rparr>))))"
proof -
  have "distinct (map fst (jobs (snd (poll src \<lparr>jobs = [], log = []\<rparr>))))"
    by (rule poll_distinct) simp
  then show ?thesis
    using poll_never_raises[of src "\<lparr>jobs = [], log = []\<rparr>"]
    by (cases "poll src \<lparr>jobs = [], log = []\<rparr>")
       (auto simp: start_polling_def add_job_def AList.distinct_update)
qed

section \<open>The claims\<close>

text \<open>
  C5. For every text of the form HH:MM or HH:MM:SS whose components have one or two
  digits, \<open>normalize_time\<close> returns the pair (hour, minute) when the hour is at most 23 and
  the minute at most 59; otherwise the first pattern's match is dropped, no later pattern
  accepts the text, and the result is \<open>None\<close> (so for hour 24 or minute 60).
\<close>

theorem normalize_time_in_range:
  assumes "py_int hs = Inr h" "length hs \<le> 2" "py_int ms = Inr m" "length ms \<le> 2"
    and "t = hs @ 58 # ms \<or> (\<exists>ss. digits12 ss \<and> t = hs @ 58 # ms @ 58 # ss)"
  shows "normalize_time t = (if h \<le> 23 \<and> m \<le> 59 then Inr (Some (h, m)) else Inr None)"
  using assms(5) normalize_time_hm[OF assms(1-4)] normalize_time_hms[OF assms(1-4)]
  by (elim disjE exE conjE) simp_all

theorem normalize_time_in_range_witness:
  "py_int [49, 54] = Inr 16 \<and> py_int [51, 48] = Inr 30 \<and> py_int [50, 52] = Inr 24
   \<and> py_int [54, 48] = Inr 60 \<and> py_int [48, 48] = Inr 0 \<and> digits12 [48, 48]
   \<and> normalize_time (ascii ''16:30'') = Inr (Some (16, 30))
   \<and> normalize_time (ascii ''16:30:00'') = Inr (Some (16, 30))
   \<and> normalize_time (ascii ''24:00'') = Inr None
   \<and> normalize_time (ascii ''16:60'') = Inr None
   \<and> normalize_time (ascii ''24:00:00'') = Inr None"
proof -
  have d: "digits12 [48, 48]" by (simp add: digits12_def isdecimal_def digit_val_def nd_zeros_def)
  have a: "length [49, 54::nat] \<le> 2" "length [51, 48::nat] \<le> 2" "length [50, 52::nat] \<le> 2"
    "length [54, 48::nat] \<le> 2" "length [48, 48::nat] \<le> 2" by simp_all
  note p = py_int_examples
  have "normalize_time (ascii ''16:30'') = Inr (Some (16, 30))"
    using normalize_time_in_range[OF p(1) a(1) p(3) a(2), of "[49, 54, 58, 51, 48]"]
    by (simp add: ascii_def)
  moreover have "normalize_time (ascii ''16:30:00'') = Inr (Some (16, 30))"
    using normalize_time_in_range[OF p(1) a(1) p(3) a(2), of "[49, 54, 58, 51, 48, 58, 48, 48]"] d
    by (simp add: ascii_def)
  moreover have "normalize_time (ascii ''24:00'') = Inr None"
    using normalize_time_in_range[OF p(5) a(3) p(2) a(5), of "[50, 52, 58, 48, 48]"]
    by (simp add: ascii_def)
  moreover have "normalize_time (ascii ''16:60'') = Inr None"
    using normalize_time_in_range[OF p(1) a(1) p(6) a(4), of "[49, 54, 58, 54, 48]"]
    by (simp add: ascii_def)
  moreover have "normalize_time (ascii ''24:00:00'') = Inr None"
    using normalize_time_in_range[OF p(5) a(3) p(2) a(5), of "[50, 52, 58, 48, 48, 58, 48, 48]"] d
    by (simp add: ascii_def)
  ultimately show ?thesis using p d by simp
qed

text \<open>
  C10. The seconds of an HH:MM:SS text are matched and never checked: whatever one or
  two digits stand there (99 too), the result is the pair (hour, minute) for an hour
  up to 23 and a minute up to 59.
\<close>

theorem normalize_time_ignores_seconds:
  assumes "py_int hs = Inr h" "length hs \<le> 2" "h \<le> 23"
    and "py_int ms = Inr m" "length ms \<le> 2" "m \<le> 59"
    and "py_int ss = Inr sec" "length ss \<le> 2"
  shows "normalize_time (hs @ 58 # ms @ 58 # ss) = Inr (Some (h, m))"
proof -
  from assms(7,8) have "digits12 ss" using py_int_digits12 by blast
  from normalize_time_hms[OF assms(1,2,4,5) this] assms(3,6) show ?thesis by simp
qed

theorem normalize_time_ignores_seconds_witness:
  "py_int [49, 54] = Inr 16 \<and> py_int [51, 48] = Inr 30 \<and> py_int [57, 57] = Inr 99
   \<and> normalize_time (ascii ''16:30:99'') = Inr (Some (16, 30))"
  using normalize_time_ignores_seconds[of "[49, 54]" 16 "[51, 48]" 30 "[57, 57]" 99]
  by (simp add: py_int_examples ascii_def)

text \<open>
  C6. \<open>normalize_time\<close> tries its patterns in order: the result of HH:MM or HH:MM:SS
  stands when there is one, then that of the form with one separator, then that of bare
  hours. It accepts HH:MM and HH:MM:SS, hours and minutes around one colon, period,
  hyphen or blank, and bare hours with minute 0, for an hour up to 23 and a minute up to
  59; so \<open>16.00\<close>, \<open>16-00\<close> and \<open>16\<close> give (16, 0). The empty text and a text of
  blanks only give \<open>None\<close>.
\<close>

theorem normalize_time_accepts:
  "(\<forall>s t. time_hhmmss (py_strip s) = Inr (Some t) \<longrightarrow> normalize_time s = Inr (Some t))
   \<and> (\<forall>s t. time_hhmmss (py_strip s) = Inr None \<and> time_separated (py_strip s) = Inr (Some t)
          \<longrightarrow> normalize_time s = Inr (Some t))
   \<and> (\<forall>s. time_hhmmss (py_strip s) = Inr None \<and> time_separated (py_strip s) = Inr None
          \<longrightarrow> normalize_time s = time_hours (py_strip s))
   \<and> (\<forall>hs h ms m ss. py_int hs = Inr h \<and> length hs \<le> 2 \<and> h \<le> 23 \<and>
          py_int ms = Inr m \<and> length ms \<le> 2 \<and> m \<le> 59 \<and> digits12 ss
          \<longrightarrow> normalize_time (hs @ 58 # ms) = Inr (Some (h, m)) \<and>
              normalize_time (hs @ 58 # ms @ 58 # ss) = Inr (Some (h, m)))
   \<and> (\<forall>hs h ms m c. py_int hs = Inr h \<and> length hs \<le> 2 \<and> h \<le> 23 \<and>
          py_int ms = Inr m \<and> length ms \<le> 2 \<and> m \<le> 59 \<and>
          (c = 58 \<or> c = 46 \<or> c = 45 \<or> isspace c)
          \<longrightarrow> normalize_time (hs @ c # ms) = Inr (Some (h, m)))
   \<and> (\<forall>hs h. py_int hs = Inr h \<and> length hs \<le> 2 \<and> h \<le> 23
          \<longrightarrow> normalize_time hs = Inr (Some (h, 0)))
   \<and> normalize_time (ascii ''16.00'') = Inr (Some (16, 0))
   \<and> normalize_time (ascii ''16-00'') = Inr (Some (16, 0))
   \<and> normalize_time (ascii ''16'') = Inr (Some (16, 0))
   \<and> normalize_time [] = Inr None
   \<and> (\<forall>s. list_all isspace s \<longrightarrow> normalize_time s = Inr None)"
proof (intro conjI allI impI)
  fix s t assume "time_hhmmss (py_strip s) = Inr (Some t)"
  then show "normalize_time s = Inr (Some t)" by (simp add: normalize_time_def)
next
  fix s t assume "time_hhmmss (py_strip s) = Inr None \<and> time_separated (py_strip s) = Inr (Some t)"
  then show "normalize_time s = Inr (Some t)" by (simp add: normalize_time_def)
next
  fix s assume "time_hhmmss (py_strip s) = Inr None \<and> time_separated (py_strip s) = Inr None"
  then show "normalize_time s = time_hours (py_strip s)"
    by (simp add: normalize_time_def split: sum.splits option.splits)
next
  fix hs h ms m ss
  assume a: "py_int hs = Inr h \<and> length hs \<le> 2 \<and> h \<le> 23 \<and>
          py_int ms = Inr m \<and> length ms \<le> 2 \<and> m \<le> 59 \<and> digits12 ss"
  then show "normalize_time (hs @ 58 # ms) = Inr (Some (h, m))"
    using normalize_time_hm[of hs h ms m] by simp
  from a show "normalize_time (hs @ 58 # ms @ 58 # ss) = Inr (Some (h, m))"
    using normalize_time_hms[of hs h ms m ss] by simp
next
  fix hs h ms m c
  assume "py_int hs = Inr h \<and> length hs \<le> 2 \<and> h \<le> 23 \<and>
          py_int ms = Inr m \<and> length ms \<le> 2 \<and> m \<le> 59 \<and>
          (c = 58 \<or> c = 46 \<or> c = 45 \<or> isspace c)"
  then show "normalize_time (hs @ c # ms) = Inr (Some (h, m))"
    using normalize_time_sep[of hs h ms m c] by simp
next
  fix hs h assume "py_int hs = Inr h \<and> length hs \<le> 2 \<and> h \<le> 23"
  then show "normalize_time hs = Inr (Some (h, 0))"
    using normalize_time_bare[of hs h] by simp
next
  show "normalize_time (ascii ''16.00'') = Inr (Some (16, 0))"
    using normalize_time_sep[of "[49, 54]" 16 "[48, 48]" 0 46]
    by (simp add: py_int_examples ascii_def)
next
  show "normalize_time (ascii ''16-00'') = Inr (Some (16, 0))"
    using normalize_time_sep[of "[49, 54]" 16 "[48, 48]" 0 45]
    by (simp add: py_int_examples ascii_def)
next
  show "normalize_time (ascii ''16'') = Inr (Some (16, 0))"
    using normalize_time_bare[of "[49, 54]" 16]
    by (simp add: py_int_examples ascii_def)
next
  show "normalize_time [] = Inr None"
    using normalize_time_blank[of "[]"] by simp
next
  fix s assume "list_all isspace s"
  then show "normalize_time s = Inr None" by (rule normalize_time_blank)
qed


theorem normalize_time_accepts_witness:
  "py_int [55] = Inr 7 \<and> py_int [48, 53] = Inr 5 \<and> py_int [57] = Inr 9 \<and> isspace 32
   \<and> list_all isspace [32, 9, 160] \<and> digits12 [48, 53]
   \<and> time_hhmmss (py_strip (ascii '' 7:05 '')) = Inr (Some (7, 5))
   \<and> normalize_time (ascii '' 7:05 '') = Inr (Some (7, 5))
   \<and> normalize_time (ascii ''7:05:05'') = Inr (Some (7, 5))
   \<and> normalize_time (ascii ''7 05'') = Inr (Some (7, 5))
   \<and> normalize_time (ascii ''9'') = Inr (Some (9, 0))
   \<and> normalize_time [32, 9, 160] = Inr None"
proof -
  note t = normalize_time_accepts
  have sp: "isspace 32" "list_all isspace [32, 9, 160]" by (simp_all add: isspace_def)
  have d: "digits12 [48, 53]" using py_int_digits12[of "[48, 53]" 5] py_int_more by simp
  have st: "py_strip (ascii '' 7:05 '') = [55, 58, 48, 53]"
    by (simp add: py_strip_def ascii_def isspace_def)
  have "[55, 58, 48, 53] = [55] @ 58 # [48, 53]" by simp
  have h: "time_hhmmss (py_strip (ascii '' 7:05 '')) = Inr (Some (7, 5))"
    unfolding st time_hhmmss_def
    using re_hhmmss_hm[of "[55]" "[48, 53]"] d py_int_digits12[of "[55]" 7] py_int_more
      check_hm_eq[of "[55]" 7 "[48, 53]" 5]
    by simp
  from t h have 1: "normalize_time (ascii '' 7:05 '') = Inr (Some (7, 5))" by blast
  from t have "py_int [55] = Inr 7 \<and> length [55::nat] \<le> 2 \<and> (7::int) \<le> 23 \<and>
          py_int [48, 53] = Inr 5 \<and> length [48, 53::nat] \<le> 2 \<and> (5::int) \<le> 59 \<and> digits12 [48, 53]
          \<longrightarrow> normalize_time ([55] @ 58 # [48, 53] @ 58 # [48, 53]) = Inr (Some (7, 5))" by blast
  then have 2: "normalize_time (ascii ''7:05:05'') = Inr (Some (7, 5))"
    using py_int_more d by (simp add: ascii_def)
  from t have "py_int [55] = Inr 7 \<and> length [55::nat] \<le> 2 \<and> (7::int) \<le> 23 \<and>
          py_int [48, 53] = Inr 5 \<and> length [48, 53::nat] \<le> 2 \<and> (5::int) \<le> 59 \<and>
          ((32::nat) = 58 \<or> (32::nat) = 46 \<or> (32::nat) = 45 \<or> isspace 32)
          \<longrightarrow> normalize_time ([55] @ 32 # [48, 53]) = Inr (Some (7, 5))" by blast
  then have 3: "normalize_time (ascii ''7 05'') = Inr (Some (7, 5))"
    using py_int_more sp by (simp add: ascii_def)
  from t have "py_int [57] = Inr 9 \<and> length [57::nat] \<le> 2 \<and> (9::int) \<le> 23
          \<longrightarrow> normalize_time [57] = Inr (Some (9, 0))" by blast
  then have 4: "normalize_time (ascii ''9'') = Inr (Some (9, 0))"
    using py_int_more by (simp add: ascii_def)
  from t sp have 5: "normalize_time [32, 9, 160] = Inr None" by blast
  show ?thesis using 1 2 3 4 5 h py_int_more sp d by simp
qed








text \<open>
  C3. If the fetch fails (authorising, opening the spreadsheet or the worksheet, or
  reading the values raises), \<open>refresh_schedule\<close> raises with the scheduler's jobs as
  they were before the cycle; \<open>poll\<close> catches the exception, so nothing escapes it and
  the jobs are still those of the previous cycle; the interval job is among them, so the
  next tick runs \<open>poll\<close> again.
\<close>

theorem fetch_failure_isolated:
  assumes "fetch_fails src"
  shows "(\<exists>e w'. refresh_schedule src w = (Some e, w') \<and> jobs w' = jobs w)
    \<and> fst (poll src w) = None
    \<and> jobs (snd (poll src w)) = jobs w
    \<and> jobs (tick src w) = jobs w
    \<and> (\<forall>rest. \<exists>w'. jobs w' = jobs w \<and> ticks (src # rest) w = ticks rest w')
    \<and> (\<forall>t next_src. get_job sheet_poll (jobs w) = Some (Job t Poll) \<longrightarrow>
          tick next_src (tick src w) = snd (poll next_src (tick src w)))"
proof -
  have t: "jobs (tick src w) = jobs w"
    using poll_fails[OF assms, of w]
    by (simp add: tick_def split: option.splits job.splits func.splits)
  have "\<forall>rest. \<exists>w'. jobs w' = jobs w \<and> ticks (src # rest) w = ticks rest w'"
    using t by auto
  moreover have "\<forall>t next_src. get_job sheet_poll (jobs w) = Some (Job t Poll) \<longrightarrow>
          tick next_src (tick src w) = snd (poll next_src (tick src w))"
  proof (intro allI impI)
    fix t' next_src
    assume "get_job sheet_poll (jobs w) = Some (Job t' Poll)"
    then have "get_job sheet_poll (jobs (tick src w)) = Some (Job t' Poll)" by (simp add: t)
    then show "tick next_src (tick src w) = snd (poll next_src (tick src w))"
      by (simp add: tick_def[of next_src])
  qed
  ultimately show ?thesis using refresh_fails[OF assms, of w] poll_fails[OF assms, of w] t
    by blast
qed


theorem fetch_failure_isolated_witness:
  "fetch_fails \<lparr>authorize = None, open_by_key = Some (APIError True), worksheet = None,
       get_all_values = Inr []\<rparr>
   \<and> jobs (snd (poll \<lparr>authorize = None, open_by_key = Some (APIError True), worksheet = None,
       get_all_values = Inr []\<rparr>
       \<lparr>jobs = [(sheet_poll, Job (IntervalTrigger 60) Poll),
                (row_key 2, Job (CronTrigger None None 9 30) (Send (ascii ''Standup'')))],
        log = []\<rparr>))
     = [(sheet_poll, Job (IntervalTrigger 60) Poll),
        (row_key 2, Job (CronTrigger None None 9 30) (Send (ascii ''Standup'')))]
   \<and> fst (poll \<lparr>authorize = None, open_by_key = Some (APIError True), worksheet = None,
       get_all_values = Inr []\<rparr>
       \<lparr>jobs = [(sheet_poll, Job (IntervalTrigger 60) Poll),
                (row_key 2, Job (CronTrigger None None 9 30) (Send (ascii ''Standup'')))],
        log = []\<rparr>) = None"
proof -
  let ?src = "\<lparr>authorize = None, open_by_key = Some (APIError True), worksheet = None,
       get_all_values = Inr []\<rparr>"
  have f: "fetch_fails ?src" by (simp add: fetch_fails_def)
  from fetch_failure_isolated[OF f] f show ?thesis by simp
qed





text \<open>
  C2, as the code has it. \<open>refresh_schedule\<close> numbers the data rows from 2, the header
  being row 1 of the sheet: the data row at position \<open>p\<close> among the data rows (counted
  from 1) is the grid's row \<open>p\<close> (counted from 0) and is parsed with index \<open>p + 1\<close>, and
  when it is accepted its key is \<open>row-\<close> followed by the decimal text of \<open>p + 1\<close>. The key
  is an injective function of the position, and the first data row has the key \<open>row-2\<close>.
\<close>

theorem row_key_position:
  assumes "1 \<le> p" "p \<le> length (drop 1 values)"
  shows "enumerate_from 2 (drop 1 values) ! (p - 1) = (int p + 1, values ! p)
    \<and> (\<forall>ws it. parse_row (int p + 1) (pad_row (values ! p)) = Inr (ws, Some it) \<longrightarrow>
          item_key it = ascii ''row-'' @ py_str_int (int p + 1))
    \<and> inj (\<lambda>q::nat. ascii ''row-'' @ py_str_int (int q + 1))
    \<and> ascii ''row-'' @ py_str_int (int 1 + 1) = ascii ''row-2''"
proof -
  from assms have i: "p - 1 < length (drop 1 values)" by simp
  from assms have v: "drop 1 values ! (p - 1) = values ! p" by simp
  from assms have e: "2 + int (p - 1) = int p + 1" by simp
  have 1: "enumerate_from 2 (drop 1 values) ! (p - 1) = (int p + 1, values ! p)"
    using enumerate_from_nth[OF i, of 2] by (simp only: v e)
  have 2: "\<forall>ws it. parse_row (int p + 1) (pad_row (values ! p)) = Inr (ws, Some it) \<longrightarrow>
          item_key it = ascii ''row-'' @ py_str_int (int p + 1)"
    by (auto dest!: parse_row_key simp: row_key_def row_prefix_def)
  have 3: "inj (\<lambda>q::nat. ascii ''row-'' @ py_str_int (int q + 1))"
    by (rule injI) (auto dest: py_str_int_inj)
  have 4: "ascii ''row-'' @ py_str_int (int 1 + 1) = ascii ''row-2''"
    using row_key_examples(2) by (simp add: row_key_def row_prefix_def)
  from 1 2 3 4 show ?thesis by (intro conjI)
qed

theorem row_key_position_witness:
  "(1::nat) \<le> 1
   \<and> 1 \<le> length (drop 1 [[ascii ''status''],
         [ascii ''TRUE'', ascii ''Standup'', period_day, [], [], ascii ''09:30'']])
   \<and> enumerate_from 2 (drop 1 [[ascii ''status''],
         [ascii ''TRUE'', ascii ''Standup'', period_day, [], [], ascii ''09:30'']]) ! 0
       = (2, [ascii ''TRUE'', ascii ''Standup'', period_day, [], [], ascii ''09:30''])
   \<and> parse_row 2 (pad_row [ascii ''TRUE'', ascii ''Standup'', period_day, [], [], ascii ''09:30''])
       = Inr ([], Some (Daily (ascii ''row-2'') (ascii ''Standup'') 9 30))"
proof -
  let ?g = "[[ascii ''status''],
         [ascii ''TRUE'', ascii ''Standup'', period_day, [], [], ascii ''09:30'']]"
  have h: "(1::nat) \<le> 1" "1 \<le> length (drop 1 ?g)" by simp_all
  from row_key_position[OF h]
  have "enumerate_from 2 (drop 1 ?g) ! (1 - 1) = (int 1 + 1, ?g ! 1)" by (elim conjE)
  then have a: "enumerate_from 2 (drop 1 ?g) ! 0
       = (2, [ascii ''TRUE'', ascii ''Standup'', period_day, [], [], ascii ''09:30''])"
    by simp
  have b: "parse_row 2 (pad_row [ascii ''TRUE'', ascii ''Standup'', period_day, [], [], ascii ''09:30''])
       = Inr ([], Some (Daily (ascii ''row-2'') (ascii ''Standup'') 9 30))"
    by (simp add: parse_row_standup row_key_examples)
  from h a b show ?thesis by (intro conjI)
qed

text \<open>
  C2 as stated has the first data row keyed \<open>row-1\<close>. A sheet with a header and one
  accepted data row, refreshed into an empty job store, leaves one job, whose id is
  \<open>row-2\<close>.
\<close>

theorem first_data_row_key_counterexample:
  "map fst (jobs (snd (refresh_schedule
      (fetched [[ascii ''status''],
         [ascii ''TRUE'', ascii ''Standup'', period_day, [], [], ascii ''09:30'']])
      \<lparr>jobs = [], log = []\<rparr>))) = [ascii ''row-2'']
   \<and> row_prefix @ py_str_int 1 = ascii ''row-1''
   \<and> ascii ''row-2'' \<noteq> ascii ''row-1''"
  using row_key_examples(1) by (simp add: refresh_one row_key_def) (simp add: ascii_def)

end
